theory Spec2Isabelle
  imports Main "HOL-Library.Multiset"
begin

section \<open>Go values used by domainlookup\<close>

text \<open>
  Go strings are byte sequences, as \<^typ>\<open>string\<close> is.  A Go \<open>error\<close> made by
  \<open>errors.New\<close> or \<open>fmt.Errorf\<close> is a value that carries its text; \<open>Error\<close> reads it.
\<close>

datatype error = errorString string

fun Error :: "error \<Rightarrow> string" where
  "Error (errorString s) = s"

text \<open>
  \<open>strings.Join(elems, sep)\<close>.
\<close>

fun Join :: "string list \<Rightarrow> string \<Rightarrow> string" where
  "Join [] sep = []"
| "Join [x] sep = x"
| "Join (x # y # ys) sep = x @ sep @ Join (y # ys) sep"

text \<open>
  \<open>strings.Split(s, sep)\<close> for a separator of one byte: the loop of the library finds
  the first separator, cuts the segment before it, and goes on behind it; the rest
  without a separator is the last segment.
\<close>

function Split :: "string \<Rightarrow> char \<Rightarrow> string list" where
  "Split s sep =
     (case dropWhile (\<lambda>c. c \<noteq> sep) s of
        [] \<Rightarrow> [s]
      | _ # rest \<Rightarrow> takeWhile (\<lambda>c. c \<noteq> sep) s # Split rest sep)"
  by pat_completeness auto
termination
proof (relation "measure (\<lambda>(s, sep). length s)")
  show "wf (measure (\<lambda>(s, sep). length s))" by simp
next
  fix s :: string and sep :: char and x rest
  assume "dropWhile (\<lambda>c. c \<noteq> sep) s = x # rest"
  then have "length (x # rest) \<le> length s"
    by (metis length_dropWhile_le)
  then show "((rest, sep), (s, sep)) \<in> measure (\<lambda>(s, sep). length s)"
    by simp
qed

declare Split.simps [simp del]

text \<open>
  \<open>fmt.Sprintf\<close> for formats whose only verb is \<open>%s\<close> with string operands: each
  \<open>%s\<close> is replaced by the next operand as it is; a verb without an operand prints
  \<open>%!s(MISSING)\<close>.
\<close>

fun Sprintf :: "string \<Rightarrow> string list \<Rightarrow> string" where
  "Sprintf (a # b # fmt) args =
     (if a = CHR ''%'' \<and> b = CHR ''s''
      then (case args of
              [] \<Rightarrow> ''%!s(MISSING)'' @ Sprintf fmt []
            | x # xs \<Rightarrow> x @ Sprintf fmt xs)
      else a # Sprintf (b # fmt) args)"
| "Sprintf fmt args = fmt"

text \<open>
  The verb \<open>%+v\<close> on a \<open>[]string\<close> and on a \<open>[][]string\<close>: the elements between
  brackets, separated by one space.
\<close>

definition fmt_strings :: "string list \<Rightarrow> string" where
  "fmt_strings xs = ''['' @ Join xs '' '' @ '']''"

definition fmt_service :: "string list list \<Rightarrow> string" where
  "fmt_service service = ''['' @ Join (map fmt_strings service) '' '' @ '']''"

section \<open>The bootstrap document and the lookup map\<close>

type_synonym RdapDNSservice = "string list list"

record RdapDNS =
  Description :: string
  Publication :: string
  Services :: "RdapDNSservice list"

text \<open>
  The body of \<open>for _, service := range dns.Services\<close> in \<open>LookupMap\<close>, with the map
  \<open>m\<close> built so far: a service that is not a pair returns the error at once, and
  the inner loop stores \<open>service[1]\<close> under every name of \<open>service[0]\<close>.
\<close>

fun LookupMap_services ::
  "RdapDNSservice list \<Rightarrow> (string \<rightharpoonup> string list) \<Rightarrow> error + (string \<rightharpoonup> string list)" where
  "LookupMap_services [] m = Inr m"
| "LookupMap_services (service # rest) m =
     (if length service \<noteq> 2
      then Inl (errorString (''service is not a tuple. service '' @ fmt_service service))
      else LookupMap_services rest
             (fold (\<lambda>topdomain m. m(topdomain \<mapsto> service ! 1)) (service ! 0) m))"

text \<open>
  \<open>func (dns *RdapDNS) LookupMap()\<close>; the receiver may be \<open>nil\<close>.
\<close>

definition LookupMap :: "RdapDNS option \<Rightarrow> error + (string \<rightharpoonup> string list)" where
  "LookupMap dns =
     (case dns of
        None \<Rightarrow> Inl (errorString ''rdap services is empty'')
      | Some d \<Rightarrow>
          if length (Services d) = 0 then Inl (errorString ''rdap services is empty'')
          else LookupMap_services (Services d) Map.empty)"

section \<open>One lookup\<close>

datatype RdapLookupResult = RdapLookupResult

record DomainLookupResult =
  Domain :: string
  Message :: string
  Result :: "RdapLookupResult option"

text \<open>
  What the task reads of an \<open>http.Response\<close>: its status code, and what
  \<open>io.ReadAll(resp.Body)\<close> gives.  The network is a function from the requested
  URL to what \<open>http.Get\<close> returns; the list of requested URLs is passed along, so
  that a lookup that asks nothing leaves it as it was.
\<close>

record Response =
  StatusCode :: int
  Body :: "error + string"

type_synonym network = "string \<Rightarrow> error + Response"

definition http_Get :: "network \<Rightarrow> string \<Rightarrow> string list \<Rightarrow> (error + Response) \<times> string list" where
  "http_Get net url requested = (net url, requested @ [url])"

definition topdomain :: "string \<Rightarrow> string" where
  "topdomain domain =
     (if domain = [] then []
      else (let arr = Split domain CHR ''.'' in arr ! (length arr - 1)))"

definition rdapLookupURL :: "string \<Rightarrow> string \<Rightarrow> string" where
  "rdapLookupURL rdap domain = Sprintf ''%s/domain/%s'' [rdap, domain]"

definition queryRdap ::
  "network \<Rightarrow> string \<Rightarrow> string \<Rightarrow> string list \<Rightarrow> (error + Response) \<times> string list" where
  "queryRdap net rdap domain requested =
     (let query = rdapLookupURL rdap domain;
          (r, requested') = http_Get net query requested
      in case r of
           Inl err \<Rightarrow> (Inl err, requested')
         | Inr resp \<Rightarrow>
             (case Body resp of
                Inl err \<Rightarrow> (Inl err, requested')
              | Inr _ \<Rightarrow> (Inr resp, requested')))"

text \<open>
  The function that \<open>Start\<close> runs for one domain, up to the value it sends on
  \<open>worker.Result\<close>: the three places where it sends, in the order of the source.
\<close>

definition lookup_message :: "int \<Rightarrow> string" where
  "lookup_message statusCode =
     (if statusCode \<ge> 200 \<and> statusCode < 300 then ''Registered''
      else if statusCode = 404 then ''Unregistered''
      else if statusCode \<ge> 500 then ''RDAP server error''
      else ''Unknown error'')"

definition lookup ::
  "(string \<rightharpoonup> string list) \<Rightarrow> network \<Rightarrow> string \<Rightarrow> string list
     \<Rightarrow> DomainLookupResult \<times> string list" where
  "lookup rdapLookupMap net domain requested =
     (case rdapLookupMap (topdomain domain) of
        None \<Rightarrow>
          (\<lparr>Domain = domain, Message = ''No RDAP server found'', Result = None\<rparr>, requested)
      | Some apis \<Rightarrow>
          if length apis = 0
          then (\<lparr>Domain = domain, Message = ''No RDAP server found'', Result = None\<rparr>, requested)
          else (case queryRdap net (apis ! 0) domain requested of
                  (Inl err, requested') \<Rightarrow>
                    (\<lparr>Domain = domain, Message = Error err, Result = None\<rparr>, requested')
                | (Inr resp, requested') \<Rightarrow>
                    (\<lparr>Domain = domain, Message = lookup_message (StatusCode resp), Result = None\<rparr>,
                     requested')))"

section \<open>The dispatcher \<open>Start\<close> and its tasks\<close>

text \<open>
  \<open>Start\<close> runs in one goroutine and starts one goroutine per domain; they meet at
  the channels \<open>unchecked\<close>, \<open>concurrencies\<close> and \<open>Result\<close> and at the wait group.
  The model is an interleaving of their steps: a state, and a function \<open>fire\<close> that
  takes one step of one goroutine, or is \<open>None\<close> where that goroutine would block.

  A task is at one of these places of \<open>func(domain string)\<close>:
  \<^item> \<open>Started domain\<close>: created, its result not yet computed;
  \<^item> \<open>Sending r\<close>: at one of the three \<open>worker.Result <- r\<close>;
  \<^item> \<open>Releasing\<close>: in the deferred function, at \<open><-worker.concurrencies\<close>;
  \<^item> \<open>Finishing\<close>: in the deferred function, at \<open>wg.Done()\<close>;
  \<^item> \<open>Exited\<close>.
\<close>

datatype task =
    Started string
  | Sending DomainLookupResult
  | Releasing
  | Finishing
  | Exited

text \<open>
  The goroutine of \<open>Start\<close> is at one of these places: at the head of
  \<open>for domain := range worker.unchecked\<close>, at \<open>wg.Add(1)\<close>, at
  \<open>worker.concurrencies <- struct{}{}\<close>, at \<open>go func(domain)\<close>, at \<open>wg.Wait()\<close>, at
  \<open>close(worker.Result)\<close>, or behind it.
\<close>

datatype dispatcher =
    Receiving
  | Adding string
  | Acquiring string
  | Spawning string
  | Waiting
  | Closing
  | Returned

text \<open>
  The state: \<open>unchecked\<close> holds the domains that the producer still sends before it
  closes the channel; \<open>concurrencies\<close> is the number of elements in the buffered
  channel and \<open>concurrencyLimit\<close> its capacity; \<open>Result_chan\<close> is what the reader of
  \<open>worker.Result\<close> has received so far, in the order received, and \<open>closed\<close> says
  whether that channel is closed; \<open>wg\<close> is the counter of the wait group;
  \<open>requested\<close> is the list of URLs asked of the network; \<open>panicked\<close> is set by a
  send on the closed channel and by a negative wait group counter.
\<close>

record worker =
  "unchecked" :: "string list"
  rdapLookupMap :: "string \<rightharpoonup> string list"
  concurrencies :: nat
  concurrencyLimit :: nat
  Result_chan :: "DomainLookupResult list"
  closed :: bool
  wg :: int
  pc :: dispatcher
  tasks :: "task list"
  requested :: "string list"
  panicked :: bool

text \<open>
  What \<open>main\<close> builds before \<open>go lookupWorker.Start()\<close>, with the domains that its
  producer goroutine will send.
\<close>

definition LookupWorker :: "(string \<rightharpoonup> string list) \<Rightarrow> nat \<Rightarrow> string list \<Rightarrow> worker" where
  "LookupWorker m c domains =
     \<lparr>unchecked = domains, rdapLookupMap = m, concurrencies = 0, concurrencyLimit = c,
      Result_chan = [], closed = False, wg = 0, pc = Receiving, tasks = [],
      requested = [], panicked = False\<rparr>"

text \<open>
  One step of the goroutine of \<open>Start\<close>.  The receive from \<open>unchecked\<close> takes the next
  domain, or leaves the loop when the channel is closed and empty.  The send on
  \<open>concurrencies\<close> blocks while the buffer is full (with capacity 0 it needs a
  receiver at the same moment; the only receivers are tasks, which exist only after
  such a send, so it blocks then too).  \<open>wg.Wait()\<close> blocks while the counter is not 0.
\<close>

definition Start_step :: "worker \<Rightarrow> worker option" where
  "Start_step w =
     (case pc w of
        Receiving \<Rightarrow>
          (case unchecked w of
             [] \<Rightarrow> Some (w\<lparr>pc := Waiting\<rparr>)
           | domain # rest \<Rightarrow> Some (w\<lparr>unchecked := rest, pc := Adding domain\<rparr>))
      | Adding domain \<Rightarrow> Some (w\<lparr>wg := wg w + 1, pc := Acquiring domain\<rparr>)
      | Acquiring domain \<Rightarrow>
          if concurrencies w < concurrencyLimit w
          then Some (w\<lparr>concurrencies := concurrencies w + 1, pc := Spawning domain\<rparr>)
          else None
      | Spawning domain \<Rightarrow> Some (w\<lparr>tasks := tasks w @ [Started domain], pc := Receiving\<rparr>)
      | Waiting \<Rightarrow> if wg w = 0 then Some (w\<lparr>pc := Closing\<rparr>) else None
      | Closing \<Rightarrow> Some (w\<lparr>closed := True, pc := Returned\<rparr>)
      | Returned \<Rightarrow> None)"

text \<open>
  One step of the task \<open>i\<close>.  A started task computes its result with the network
  \<open>net\<close> it meets.  The send on the unbuffered \<open>Result\<close> hands the value to the reader
  (the loop of \<open>main\<close>, which receives whenever a sender is ready) and panics on a
  closed channel.  The receive from \<open>concurrencies\<close> blocks while the buffer is empty.
  \<open>wg.Done()\<close> panics when the counter becomes negative.
\<close>

definition task_step :: "nat \<Rightarrow> network \<Rightarrow> worker \<Rightarrow> worker option" where
  "task_step i net w =
     (if i < length (tasks w)
      then (case tasks w ! i of
              Started domain \<Rightarrow>
                (case lookup (rdapLookupMap w) net domain (requested w) of
                   (r, requested') \<Rightarrow>
                     Some (w\<lparr>tasks := (tasks w)[i := Sending r], requested := requested'\<rparr>))
            | Sending r \<Rightarrow>
                if closed w then Some (w\<lparr>panicked := True\<rparr>)
                else Some (w\<lparr>Result_chan := Result_chan w @ [r],
                            tasks := (tasks w)[i := Releasing]\<rparr>)
            | Releasing \<Rightarrow>
                if concurrencies w > 0
                then Some (w\<lparr>concurrencies := concurrencies w - 1,
                            tasks := (tasks w)[i := Finishing]\<rparr>)
                else None
            | Finishing \<Rightarrow>
                if wg w - 1 < 0 then Some (w\<lparr>panicked := True\<rparr>)
                else Some (w\<lparr>wg := wg w - 1, tasks := (tasks w)[i := Exited]\<rparr>)
            | Exited \<Rightarrow> None)
      else None)"

text \<open>
  A schedule is a list of events: the goroutine of \<open>Start\<close> steps, or the task \<open>i\<close>
  steps (and meets the network \<open>net\<close> if it is at its request).  Nothing steps
  after a panic.
\<close>

datatype event = Dispatch | Task nat network

fun fire :: "event \<Rightarrow> worker \<Rightarrow> worker option" where
  "fire Dispatch w = (if panicked w then None else Start_step w)"
| "fire (Task i net) w = (if panicked w then None else task_step i net w)"

fun run :: "event list \<Rightarrow> worker \<Rightarrow> worker option" where
  "run [] w = Some w"
| "run (e # es) w = (case fire e w of None \<Rightarrow> None | Some w' \<Rightarrow> run es w')"

text \<open>
  A task is in flight from its creation until it has given its slot back; the wait
  group counts it until \<open>wg.Done()\<close>.
\<close>

fun holds_slot :: "task \<Rightarrow> bool" where
  "holds_slot (Started _) = True"
| "holds_slot (Sending _) = True"
| "holds_slot Releasing = True"
| "holds_slot Finishing = False"
| "holds_slot Exited = False"

fun unfinished :: "task \<Rightarrow> bool" where
  "unfinished Exited = False"
| "unfinished _ = True"

definition in_flight :: "worker \<Rightarrow> nat" where
  "in_flight w = length (filter holds_slot (tasks w))"

definition running :: "worker \<Rightarrow> nat" where
  "running w = length (filter unfinished (tasks w))"

text \<open>
  The domains that are on their way: the one a task has not yet reported, the one
  the dispatcher holds between its receive and its \<open>go\<close>.
\<close>

fun task_domain :: "task \<Rightarrow> string multiset" where
  "task_domain (Started domain) = {#domain#}"
| "task_domain (Sending r) = {#Domain r#}"
| "task_domain _ = {#}"

fun tasks_domains :: "task list \<Rightarrow> string multiset" where
  "tasks_domains [] = {#}"
| "tasks_domains (t # ts) = task_domain t + tasks_domains ts"

fun dispatcher_domain :: "dispatcher \<Rightarrow> string multiset" where
  "dispatcher_domain (Adding domain) = {#domain#}"
| "dispatcher_domain (Acquiring domain) = {#domain#}"
| "dispatcher_domain (Spawning domain) = {#domain#}"
| "dispatcher_domain _ = {#}"

fun slot_taken :: "dispatcher \<Rightarrow> nat" where
  "slot_taken (Spawning _) = 1"
| "slot_taken _ = 0"

fun added :: "dispatcher \<Rightarrow> nat" where
  "added (Acquiring _) = 1"
| "added (Spawning _) = 1"
| "added _ = 0"

fun draining :: "dispatcher \<Rightarrow> bool" where
  "draining Waiting = False"
| "draining Closing = False"
| "draining Returned = False"
| "draining _ = True"

fun joined :: "dispatcher \<Rightarrow> bool" where
  "joined Closing = True"
| "joined Returned = True"
| "joined _ = False"

text \<open>
  The invariant of every state that a schedule reaches from \<open>LookupWorker m c domains\<close>.
\<close>

definition invariant :: "nat \<Rightarrow> string list \<Rightarrow> worker \<Rightarrow> bool" where
  "invariant c domains w \<longleftrightarrow>
     \<not> panicked w \<and>
     concurrencyLimit w = c \<and>
     concurrencies w = in_flight w + slot_taken (pc w) \<and>
     concurrencies w \<le> c \<and>
     wg w = int (running w) + int (added (pc w)) \<and>
     (draining (pc w) \<or> unchecked w = []) \<and>
     (joined (pc w) \<longrightarrow> running w = 0) \<and>
     (closed w \<longleftrightarrow> pc w = Returned) \<and>
     mset (map Domain (Result_chan w)) + tasks_domains (tasks w)
       + dispatcher_domain (pc w) + mset (unchecked w) = mset domains"

text \<open>
  The number of steps that remain until \<open>Start\<close> has returned and every task has
  exited: eight per domain not yet received (four of the dispatcher, four of the
  task) and three to leave the loop, wait and close.
\<close>

fun task_steps :: "task \<Rightarrow> nat" where
  "task_steps (Started _) = 4"
| "task_steps (Sending _) = 3"
| "task_steps Releasing = 2"
| "task_steps Finishing = 1"
| "task_steps Exited = 0"

fun dispatcher_steps :: "dispatcher \<Rightarrow> nat" where
  "dispatcher_steps Receiving = 3"
| "dispatcher_steps (Adding _) = 10"
| "dispatcher_steps (Acquiring _) = 9"
| "dispatcher_steps (Spawning _) = 8"
| "dispatcher_steps Waiting = 2"
| "dispatcher_steps Closing = 1"
| "dispatcher_steps Returned = 0"

definition steps_left :: "worker \<Rightarrow> nat" where
  "steps_left w =
     8 * length (unchecked w) + dispatcher_steps (pc w) + sum_list (map task_steps (tasks w))"

section \<open>Facts about the library functions\<close>

lemma Split_not_Nil: "Split s sep \<noteq> []"
  by (subst Split.simps) (simp split: list.split)

lemma last_Split: "last (Split s sep) = rev (takeWhile (\<lambda>c. c \<noteq> sep) (rev s))"
proof (induction s sep rule: Split.induct)
  case (1 s sep)
  show ?case
  proof (cases "dropWhile (\<lambda>c. c \<noteq> sep) s")
    case Nil
    then have all: "\<forall>c\<in>set s. c \<noteq> sep" by (simp add: dropWhile_eq_Nil_conv)
    then have tw: "takeWhile (\<lambda>c. c \<noteq> sep) (rev s) = rev s" by simp
    have sp: "Split s sep = [s]" by (subst Split.simps) (simp only: Nil list.case)
    show ?thesis unfolding sp tw by simp
  next
    case (Cons x rest)
    then have x: "x = sep" by (metis (mono_tags, lifting) hd_dropWhile list.distinct(1) list.sel(1))
    have s: "s = takeWhile (\<lambda>c. c \<noteq> sep) s @ sep # rest"
      using Cons x by (metis takeWhile_dropWhile_id)
    have sp: "Split s sep = takeWhile (\<lambda>c. c \<noteq> sep) s # Split rest sep"
      by (subst Split.simps) (simp only: Cons list.case)
    have "last (Split s sep) = last (Split rest sep)"
      using sp Split_not_Nil by simp
    also have "\<dots> = rev (takeWhile (\<lambda>c. c \<noteq> sep) (rev rest))"
      using 1 Cons by simp
    also have "takeWhile (\<lambda>c. c \<noteq> sep) (rev rest) = takeWhile (\<lambda>c. c \<noteq> sep) (rev s)"
      by (subst s) (simp add: takeWhile_append)
    finally show ?thesis .
  qed
qed

lemma Join_Split: "Join (Split s sep) [sep] = s"
proof (induction s sep rule: Split.induct)
  case (1 s sep)
  show ?case
  proof (cases "dropWhile (\<lambda>c. c \<noteq> sep) s")
    case Nil
    have "Split s sep = [s]" by (subst Split.simps) (simp only: Nil list.case)
    then show ?thesis by simp
  next
    case (Cons x rest)
    then have x: "x = sep" by (metis (mono_tags, lifting) hd_dropWhile list.distinct(1) list.sel(1))
    have s: "s = takeWhile (\<lambda>c. c \<noteq> sep) s @ sep # rest"
      using Cons x by (metis takeWhile_dropWhile_id)
    have sp: "Split s sep = takeWhile (\<lambda>c. c \<noteq> sep) s # Split rest sep"
      by (subst Split.simps) (simp only: Cons list.case)
    obtain y ys where y: "Split rest sep = y # ys" using Split_not_Nil by (cases "Split rest sep") auto
    have "Join (Split s sep) [sep] = takeWhile (\<lambda>c. c \<noteq> sep) s @ [sep] @ Join (Split rest sep) [sep]"
      using sp y by simp
    also have "\<dots> = takeWhile (\<lambda>c. c \<noteq> sep) s @ sep # rest"
      using 1 Cons by simp
    finally show ?thesis using s by simp
  qed
qed

lemma topdomain_eq: "topdomain domain = rev (takeWhile (\<lambda>c. c \<noteq> CHR ''.'') (rev domain))"
proof (cases "domain = []")
  case True
  then show ?thesis by (simp add: topdomain_def)
next
  case False
  then have "topdomain domain = last (Split domain CHR ''.'')"
    using Split_not_Nil [of domain "CHR ''.''"]
    by (simp add: topdomain_def Let_def last_conv_nth)
  then show ?thesis by (simp add: last_Split)
qed

lemma topdomain_last: "topdomain domain = last (Split domain CHR ''.'')"
  by (simp add: topdomain_eq last_Split)


lemma fold_upd_apply:
  "fold (\<lambda>k m. m(k \<mapsto> v)) ks m l = (if l \<in> set ks then Some v else m l)"
  by (induction ks arbitrary: m) auto

lemma find_snoc:
  "find P (xs @ [x]) = (case find P xs of None \<Rightarrow> (if P x then Some x else None) | Some y \<Rightarrow> Some y)"
  by (induction xs) auto

lemma LookupMap_services_Inr:
  "LookupMap_services services m0 = Inr m \<Longrightarrow>
     (\<forall>service\<in>set services. length service = 2) \<and>
     m label = (case find (\<lambda>service. label \<in> set (service ! 0)) (rev services) of
                  None \<Rightarrow> m0 label
                | Some service \<Rightarrow> Some (service ! 1))"
proof (induction services arbitrary: m0)
  case Nil
  then show ?case by simp
next
  case (Cons service rest)
  from Cons.prems have len: "length service = 2"
    by (simp split: if_splits)
  let ?m1 = "fold (\<lambda>topdomain m. m(topdomain \<mapsto> service ! 1)) (service ! 0) m0"
  from Cons.prems len have "LookupMap_services rest ?m1 = Inr m" by simp
  from Cons.IH [OF this] have
    all: "\<forall>service\<in>set rest. length service = 2" and
    m: "m label = (case find (\<lambda>service. label \<in> set (service ! 0)) (rev rest) of
                     None \<Rightarrow> ?m1 label | Some service \<Rightarrow> Some (service ! 1))"
    by simp_all
  show ?case
    using len all m by (simp add: find_snoc fold_upd_apply split: option.split)
qed

lemma LookupMap_services_Inl:
  "find (\<lambda>service. length service \<noteq> 2) services = Some service \<Longrightarrow>
     LookupMap_services services m0 =
       Inl (errorString (''service is not a tuple. service '' @ fmt_service service))"
proof (induction services arbitrary: m0)
  case Nil
  then show ?case by simp
next
  case (Cons a rest)
  show ?case
  proof (cases "length a \<noteq> 2")
    case True
    with Cons.prems have "service = a" by simp
    then show ?thesis by (subst LookupMap_services.simps) (simp only: if_P [OF True])
  next
    case False
    with Cons.prems have "find (\<lambda>service. length service \<noteq> 2) rest = Some service" by simp
    from Cons.IH [OF this] show ?thesis by (subst LookupMap_services.simps) (simp only: if_not_P [OF False])
  qed
qed

lemma find_Some_ex: "\<exists>x\<in>set xs. P x \<Longrightarrow> \<exists>y. find P xs = Some y"
  by (cases "find P xs") (auto simp: find_None_iff)


lemma find_SomeD: "find P xs = Some x \<Longrightarrow> x \<in> set xs \<and> P x"
  by (induction xs) (auto split: if_splits)

lemma dropWhile_hd: "dropWhile P xs = y # ys \<Longrightarrow> \<not> P y"
  by (metis hd_dropWhile list.distinct(1) list.sel(1))

lemma lookup_Domain: "Domain (fst (lookup m net domain asked)) = domain"
  by (simp add: lookup_def split: option.split prod.split sum.split)

section \<open>The lookup map\<close>

text \<open>
  C5: a bootstrap document with a service that is not a pair does not build: \<open>LookupMap\<close>
  returns the error of the first such service, in the order of the document, and no map.
\<close>

theorem LookupMap_not_a_tuple:
  assumes "\<exists>service\<in>set (Services d). length service \<noteq> 2"
  shows "\<exists>service. find (\<lambda>service. length service \<noteq> 2) (Services d) = Some service \<and>
           LookupMap (Some d) =
             Inl (errorString (''service is not a tuple. service '' @ fmt_service service))"
proof -
  from assms obtain service where
    f: "find (\<lambda>service. length service \<noteq> 2) (Services d) = Some service"
    using find_Some_ex [of "Services d" "\<lambda>service. length service \<noteq> 2"] by blast
  from assms have "Services d \<noteq> []" by auto
  then have "LookupMap (Some d) = LookupMap_services (Services d) Map.empty"
    by (simp add: LookupMap_def)
  with f show ?thesis by (simp add: LookupMap_services_Inl)
qed

theorem LookupMap_not_a_tuple_witness:
  "find (\<lambda>service. length service \<noteq> 2)
      [[[''com''], [''http://r1'']], [[''net''], [''http://r2''], [''x'']]]
     = Some [[''net''], [''http://r2''], [''x'']] \<and>
   LookupMap (Some \<lparr>Description = [], Publication = [],
       Services = [[[''com''], [''http://r1'']], [[''net''], [''http://r2''], [''x'']]]\<rparr>)
     = Inl (errorString ''service is not a tuple. service [[net] [http://r2] [x]]'')"
proof -
  let ?d = "\<lparr>Description = [], Publication = [],
       Services = [[[''com''], [''http://r1'']], [[''net''], [''http://r2''], [''x'']]]\<rparr>"
  have h: "\<exists>service\<in>set (Services ?d). length service \<noteq> 2" by simp
  from LookupMap_not_a_tuple [OF h] show ?thesis
    by (simp add: fmt_service_def fmt_strings_def)
qed

text \<open>
  C6, as the claim has it: the error of an empty service list does not carry the text
  \<open>no routing information available\<close>.
\<close>

theorem LookupMap_empty_message_counterexample:
  "LookupMap (Some \<lparr>Description = [], Publication = [], Services = []\<rparr>)
     \<noteq> Inl (errorString ''no routing information available'')"
  by (simp add: LookupMap_def)

text \<open>
  C6, amended: a bootstrap document whose service list is empty does not build:
  \<open>LookupMap\<close> returns the error with the text \<open>rdap services is empty\<close>, and no map.
\<close>

theorem LookupMap_empty:
  "Services d = [] \<Longrightarrow> LookupMap (Some d) = Inl (errorString ''rdap services is empty'')"
  by (simp add: LookupMap_def)

theorem LookupMap_empty_witness:
  "LookupMap (Some \<lparr>Description = ''RDAP bootstrap file'', Publication = [], Services = []\<rparr>)
     = Inl (errorString ''rdap services is empty'')"
proof -
  have h: "Services \<lparr>Description = ''RDAP bootstrap file'', Publication = [], Services = []\<rparr> = []"
    by simp
  from LookupMap_empty [OF h] show ?thesis .
qed

text \<open>
  C7: when \<open>LookupMap\<close> returns a map, every service of the document is a pair, the map
  sends each label to the second component of the last service whose first component
  holds the label, and its domain is the union of the first components.
\<close>

theorem LookupMap_last_wins:
  assumes "LookupMap (Some d) = Inr m"
  shows "(\<forall>service\<in>set (Services d). length service = 2) \<and>
         m label = (case find (\<lambda>service. label \<in> set (service ! 0)) (rev (Services d)) of
                      None \<Rightarrow> None
                    | Some service \<Rightarrow> Some (service ! 1)) \<and>
         dom m = (\<Union>service\<in>set (Services d). set (service ! 0))"
proof -
  from assms have s: "LookupMap_services (Services d) Map.empty = Inr m"
    by (simp add: LookupMap_def split: if_splits)
  have m: "m l = (case find (\<lambda>service. l \<in> set (service ! 0)) (rev (Services d)) of
                      None \<Rightarrow> None
                    | Some service \<Rightarrow> Some (service ! 1))" for l
    using LookupMap_services_Inr [OF s, of l] by simp
  have "(l \<in> dom m) = (l \<in> (\<Union>service\<in>set (Services d). set (service ! 0)))" for l
  proof
    assume "l \<in> dom m"
    then obtain service where "find (\<lambda>service. l \<in> set (service ! 0)) (rev (Services d)) = Some service"
      by (auto simp: m dom_def split: option.splits)
    from find_SomeD [OF this] show "l \<in> (\<Union>service\<in>set (Services d). set (service ! 0))"
      by auto
  next
    assume "l \<in> (\<Union>service\<in>set (Services d). set (service ! 0))"
    then have "find (\<lambda>service. l \<in> set (service ! 0)) (rev (Services d)) \<noteq> None"
      by (auto simp: find_None_iff)
    then show "l \<in> dom m"
      by (auto simp: m dom_def split: option.splits)
  qed
  then have "dom m = (\<Union>service\<in>set (Services d). set (service ! 0))" by blast
  with m LookupMap_services_Inr [OF s] show ?thesis by simp
qed

theorem LookupMap_last_wins_witness:
  "\<not> isl (LookupMap (Some \<lparr>Description = [], Publication = [],
       Services = [[[''com'', ''net''], [''http://r1'']], [[''com''], [''http://r2'']]]\<rparr>)) \<and>
   projr (LookupMap (Some \<lparr>Description = [], Publication = [],
       Services = [[[''com'', ''net''], [''http://r1'']], [[''com''], [''http://r2'']]]\<rparr>)) ''com''
     = Some [''http://r2''] \<and>
   projr (LookupMap (Some \<lparr>Description = [], Publication = [],
       Services = [[[''com'', ''net''], [''http://r1'']], [[''com''], [''http://r2'']]]\<rparr>)) ''net''
     = Some [''http://r1''] \<and>
   projr (LookupMap (Some \<lparr>Description = [], Publication = [],
       Services = [[[''com'', ''net''], [''http://r1'']], [[''com''], [''http://r2'']]]\<rparr>)) ''org''
     = None"
proof -
  let ?d = "\<lparr>Description = [], Publication = [],
       Services = [[[''com'', ''net''], [''http://r1'']], [[''com''], [''http://r2'']]]\<rparr>"
  have l: "\<not> isl (LookupMap (Some ?d))" by (simp add: LookupMap_def)
  then have r: "LookupMap (Some ?d) = Inr (projr (LookupMap (Some ?d)))"
    by (cases "LookupMap (Some ?d)") simp_all
  from LookupMap_last_wins [OF r, of "''com''"] LookupMap_last_wins [OF r, of "''net''"]
    LookupMap_last_wins [OF r, of "''org''"] l
  show ?thesis by simp
qed

section \<open>One lookup\<close>

text \<open>
  C8: \<open>topdomain\<close> is the last segment of the split at the dots; it is empty for the empty
  domain, holds no dot, and is the part of the domain behind its last dot.  The empty
  domain has no path of its own in the lookup: its empty label is looked up in the map
  like any other, and where the map has no empty label the result is that of a miss.
\<close>

theorem topdomain_last_segment:
  "topdomain domain = last (Split domain CHR ''.'') \<and>
   topdomain [] = [] \<and>
   CHR ''.'' \<notin> set (topdomain domain) \<and>
   (\<exists>front. domain = front @ topdomain domain \<and> (front = [] \<or> last front = CHR ''.'')) \<and>
   (m [] = None \<longrightarrow>
      lookup m net [] asked =
        (\<lparr>Domain = [], Message = ''No RDAP server found'', Result = None\<rparr>, asked))"
proof -
  define P where "P = (\<lambda>c. c \<noteq> CHR ''.'')"
  have td: "topdomain domain = rev (takeWhile P (rev domain))"
    unfolding P_def by (rule topdomain_eq)
  have 1: "CHR ''.'' \<notin> set (topdomain domain)"
  proof
    assume "CHR ''.'' \<in> set (topdomain domain)"
    then have "CHR ''.'' \<in> set (takeWhile P (rev domain))" by (simp add: td)
    then have "P CHR ''.''" by (rule set_takeWhileD [THEN conjunct2])
    then show False by (simp add: P_def)
  qed
  define front where "front = rev (dropWhile P (rev domain))"
  have "front @ topdomain domain = rev (takeWhile P (rev domain) @ dropWhile P (rev domain))"
    by (simp only: front_def td rev_append)
  also have "\<dots> = domain"
    by (simp only: takeWhile_dropWhile_id rev_rev_ident)
  finally have 2: "domain = front @ topdomain domain" by (rule sym)
  have 3: "front = [] \<or> last front = CHR ''.''"
  proof (cases "dropWhile P (rev domain)")
    case Nil
    then show ?thesis by (simp add: front_def)
  next
    case (Cons x xs)
    from dropWhile_hd [OF Cons] have "x = CHR ''.''" by (simp add: P_def)
    with Cons show ?thesis by (simp add: front_def)
  qed
  have 4: "topdomain [] = []" by (simp add: topdomain_def)
  from 2 3 have "\<exists>front. domain = front @ topdomain domain \<and> (front = [] \<or> last front = CHR ''.'')"
    by blast
  then have 5: "\<exists>front. domain = front @ topdomain domain \<and> (front = [] \<or> last front = CHR ''.'')" .
  have 6: "m [] = None \<longrightarrow>
      lookup m net [] asked =
        (\<lparr>Domain = [], Message = ''No RDAP server found'', Result = None\<rparr>, asked)"
    by (simp add: lookup_def 4)
  show ?thesis
  proof (intro conjI)
    show "topdomain domain = last (Split domain CHR ''.'')" by (rule topdomain_last)
    show "topdomain [] = []" by (rule 4)
    show "CHR ''.'' \<notin> set (topdomain domain)" by (rule 1)
    show "\<exists>front. domain = front @ topdomain domain \<and> (front = [] \<or> last front = CHR ''.'')"
      by (rule 5)
    show "m [] = None \<longrightarrow>
      lookup m net [] asked =
        (\<lparr>Domain = [], Message = ''No RDAP server found'', Result = None\<rparr>, asked)"
      by (rule 6)
  qed
qed

theorem topdomain_last_segment_witness:
  "topdomain ''www.example.com'' = ''com'' \<and>
   last (Split ''www.example.com'' CHR ''.'') = ''com'' \<and>
   lookup [''com'' \<mapsto> [''http://r1'']] (\<lambda>url. Inl (errorString ''unreachable'')) [] []
     = (\<lparr>Domain = [], Message = ''No RDAP server found'', Result = None\<rparr>, [])"
proof -
  have t: "topdomain ''www.example.com'' = ''com''" by (simp add: topdomain_eq)
  have h: "[''com'' \<mapsto> [''http://r1'']] [] = None" by simp
  note c = topdomain_last_segment [of "''www.example.com''" "[''com'' \<mapsto> [''http://r1'']]"
      "\<lambda>url. Inl (errorString ''unreachable'')" "[]"]
  from c have 1: "topdomain ''www.example.com'' = last (Split ''www.example.com'' CHR ''.'')"
    by (rule conjunct1)
  from c h have 2: "lookup [''com'' \<mapsto> [''http://r1'']] (\<lambda>url. Inl (errorString ''unreachable'')) [] []
     = (\<lparr>Domain = [], Message = ''No RDAP server found'', Result = None\<rparr>, [])"
    by blast
  from t 1 2 show ?thesis by simp
qed

text \<open>
  C9: the URL of the query is the base URL, then \<open>/domain/\<close>, then the domain, both as
  they are; this is the URL that \<open>queryRdap\<close> asks of the network.
\<close>

theorem rdapLookupURL_concat:
  "rdapLookupURL rdap domain = rdap @ ''/domain/'' @ domain \<and>
   snd (queryRdap net rdap domain asked) = asked @ [rdap @ ''/domain/'' @ domain]"
  by (simp add: rdapLookupURL_def queryRdap_def http_Get_def Let_def split: sum.split)

theorem rdapLookupURL_concat_witness:
  "rdapLookupURL ''https://rdap.verisign.com/com/v1'' ''a b.com''
     = ''https://rdap.verisign.com/com/v1/domain/a b.com''"
  using rdapLookupURL_concat [of "''https://rdap.verisign.com/com/v1''" "''a b.com''"]
  by simp

text \<open>
  C4: a domain whose top domain is not in the map gets the result
  \<open>No RDAP server found\<close> with the domain as given, and nothing is asked of the network.
\<close>

theorem lookup_no_server:
  "m (topdomain domain) = None \<Longrightarrow>
     lookup m net domain asked =
       (\<lparr>Domain = domain, Message = ''No RDAP server found'', Result = None\<rparr>, asked)"
  by (simp add: lookup_def)

theorem lookup_no_server_witness:
  "lookup [''com'' \<mapsto> [''http://r1'']] (\<lambda>url. Inl (errorString ''unreachable'')) ''b.xx'' []
     = (\<lparr>Domain = ''b.xx'', Message = ''No RDAP server found'', Result = None\<rparr>, [])"
proof -
  have h: "[''com'' \<mapsto> [''http://r1'']] (topdomain ''b.xx'') = None"
    by (simp add: topdomain_eq)
  from lookup_no_server [where m = "[''com'' \<mapsto> [''http://r1'']]" and domain = "''b.xx''", OF h]
  show ?thesis .
qed

text \<open>
  C10: a domain whose top domain is in the map with an empty list of servers gets the
  same result as one whose top domain is not in the map, and nothing is asked of the
  network.
\<close>

theorem lookup_no_endpoint:
  "m (topdomain domain) = Some [] \<Longrightarrow>
     lookup m net domain asked =
       (\<lparr>Domain = domain, Message = ''No RDAP server found'', Result = None\<rparr>, asked)"
  by (simp add: lookup_def)

theorem lookup_no_endpoint_witness:
  "lookup [''com'' \<mapsto> []] (\<lambda>url. Inl (errorString ''unreachable'')) ''a.com'' []
     = (\<lparr>Domain = ''a.com'', Message = ''No RDAP server found'', Result = None\<rparr>, [])"
proof -
  have h: "[''com'' \<mapsto> []] (topdomain ''a.com'') = Some []"
    by (simp add: topdomain_eq)
  from lookup_no_endpoint [where m = "[''com'' \<mapsto> []]" and domain = "''a.com''", OF h]
  show ?thesis .
qed

text \<open>
  C2: a lookup that reaches the network asks the first server once; the result carries
  the domain as given; when the response arrives and its body is read, the message
  follows the status code; when \<open>http.Get\<close> or the reading of the body fails, the
  message is the text of that error.
\<close>

theorem lookup_network:
  assumes "m (topdomain domain) = Some apis" and "apis \<noteq> []"
  shows "Domain (fst (lookup m net domain asked)) = domain \<and>
         snd (lookup m net domain asked)
           = asked @ [rdapLookupURL (apis ! 0) domain] \<and>
         (\<forall>resp body. net (rdapLookupURL (apis ! 0) domain) = Inr resp \<and> Body resp = Inr body \<longrightarrow>
            (200 \<le> StatusCode resp \<and> StatusCode resp < 300 \<longrightarrow>
               Message (fst (lookup m net domain asked)) = ''Registered'') \<and>
            (StatusCode resp = 404 \<longrightarrow>
               Message (fst (lookup m net domain asked)) = ''Unregistered'') \<and>
            (500 \<le> StatusCode resp \<longrightarrow>
               Message (fst (lookup m net domain asked)) = ''RDAP server error'') \<and>
            (\<not> (200 \<le> StatusCode resp \<and> StatusCode resp < 300) \<and> StatusCode resp \<noteq> 404
               \<and> StatusCode resp < 500 \<longrightarrow>
               Message (fst (lookup m net domain asked)) = ''Unknown error'')) \<and>
         (\<forall>err. net (rdapLookupURL (apis ! 0) domain) = Inl err \<longrightarrow>
            Message (fst (lookup m net domain asked)) = Error err) \<and>
         (\<forall>resp err. net (rdapLookupURL (apis ! 0) domain) = Inr resp \<and> Body resp = Inl err \<longrightarrow>
            Message (fst (lookup m net domain asked)) = Error err)"
  using assms
  by (simp add: lookup_def queryRdap_def http_Get_def lookup_message_def Let_def
           split: sum.split)

theorem lookup_network_witness:
  "Domain (fst (lookup [''com'' \<mapsto> [''http://r1'', ''http://r2'']]
      (\<lambda>url. Inr \<lparr>StatusCode = 404, Body = Inr []\<rparr>) ''a.com'' [])) = ''a.com'' \<and>
   Message (fst (lookup [''com'' \<mapsto> [''http://r1'', ''http://r2'']]
      (\<lambda>url. Inr \<lparr>StatusCode = 404, Body = Inr []\<rparr>) ''a.com'' [])) = ''Unregistered'' \<and>
   snd (lookup [''com'' \<mapsto> [''http://r1'', ''http://r2'']]
      (\<lambda>url. Inr \<lparr>StatusCode = 404, Body = Inr []\<rparr>) ''a.com'' [])
     = [''http://r1/domain/a.com''] \<and>
   Message (fst (lookup [''com'' \<mapsto> [''http://r1'', ''http://r2'']]
      (\<lambda>url. Inr \<lparr>StatusCode = 200, Body = Inr []\<rparr>) ''a.com'' [])) = ''Registered'' \<and>
   Message (fst (lookup [''com'' \<mapsto> [''http://r1'', ''http://r2'']]
      (\<lambda>url. Inr \<lparr>StatusCode = 503, Body = Inr []\<rparr>) ''a.com'' [])) = ''RDAP server error'' \<and>
   Message (fst (lookup [''com'' \<mapsto> [''http://r1'', ''http://r2'']]
      (\<lambda>url. Inr \<lparr>StatusCode = 301, Body = Inr []\<rparr>) ''a.com'' [])) = ''Unknown error'' \<and>
   Message (fst (lookup [''com'' \<mapsto> [''http://r1'', ''http://r2'']]
      (\<lambda>url. Inl (errorString ''connection refused'')) ''a.com'' [])) = ''connection refused'' \<and>
   Message (fst (lookup [''com'' \<mapsto> [''http://r1'', ''http://r2'']]
      (\<lambda>url. Inr \<lparr>StatusCode = 200, Body = Inl (errorString ''unexpected EOF'')\<rparr>) ''a.com'' []))
     = ''unexpected EOF''"
proof -
  let ?m = "[''com'' \<mapsto> [''http://r1'', ''http://r2'']]"
  have h: "?m (topdomain ''a.com'') = Some [''http://r1'', ''http://r2'']"
    by (simp add: topdomain_eq)
  have n: "[''http://r1'', ''http://r2''] \<noteq> []" by simp
  have u: "rdapLookupURL ''http://r1'' ''a.com'' = ''http://r1/domain/a.com''"
    by (simp add: rdapLookupURL_def)
  note t = lookup_network [where m = ?m and domain = "''a.com''" and asked = "[]", OF h n]
  have 1: "Domain (fst (lookup ?m (\<lambda>url. Inr \<lparr>StatusCode = 404, Body = Inr []\<rparr>) ''a.com'' []))
       = ''a.com'' \<and>
     Message (fst (lookup ?m (\<lambda>url. Inr \<lparr>StatusCode = 404, Body = Inr []\<rparr>) ''a.com'' []))
       = ''Unregistered'' \<and>
     snd (lookup ?m (\<lambda>url. Inr \<lparr>StatusCode = 404, Body = Inr []\<rparr>) ''a.com'' [])
       = [''http://r1/domain/a.com'']"
    using t [of "\<lambda>url. Inr \<lparr>StatusCode = 404, Body = Inr []\<rparr>"]
    by (simp add: u)
  have 2: "Message (fst (lookup ?m (\<lambda>url. Inr \<lparr>StatusCode = 200, Body = Inr []\<rparr>) ''a.com'' []))
     = ''Registered''"
    using t [of "\<lambda>url. Inr \<lparr>StatusCode = 200, Body = Inr []\<rparr>"] by simp
  have 3: "Message (fst (lookup ?m (\<lambda>url. Inr \<lparr>StatusCode = 503, Body = Inr []\<rparr>) ''a.com'' []))
     = ''RDAP server error''"
    using t [of "\<lambda>url. Inr \<lparr>StatusCode = 503, Body = Inr []\<rparr>"] by simp
  have 4: "Message (fst (lookup ?m (\<lambda>url. Inr \<lparr>StatusCode = 301, Body = Inr []\<rparr>) ''a.com'' []))
     = ''Unknown error''"
    using t [of "\<lambda>url. Inr \<lparr>StatusCode = 301, Body = Inr []\<rparr>"] by simp
  have 5: "Message (fst (lookup ?m (\<lambda>url. Inl (errorString ''connection refused'')) ''a.com'' []))
     = ''connection refused''"
    using t [of "\<lambda>url. Inl (errorString ''connection refused'')"] by simp
  have 6: "Message (fst (lookup ?m
      (\<lambda>url. Inr \<lparr>StatusCode = 200, Body = Inl (errorString ''unexpected EOF'')\<rparr>) ''a.com'' []))
     = ''unexpected EOF''"
    using t [of "\<lambda>url. Inr \<lparr>StatusCode = 200, Body = Inl (errorString ''unexpected EOF'')\<rparr>"]
    by simp
  from 1 2 3 4 5 6 show ?thesis by blast
qed

section \<open>The dispatcher\<close>

subsection \<open>Counting over the list of tasks\<close>

lemma filter_update_length:
  "i < length xs \<Longrightarrow>
     length (filter P (xs[i := y])) + (if P (xs ! i) then 1 else 0)
       = length (filter P xs) + (if P y then 1 else 0)"
proof (induction xs arbitrary: i)
  case Nil
  then show ?case by simp
next
  case (Cons x xs)
  then show ?case by (cases i) auto
qed

lemma filter_nth_pos: "i < length xs \<Longrightarrow> P (xs ! i) \<Longrightarrow> 0 < length (filter P xs)"
proof -
  assume "i < length xs" and "P (xs ! i)"
  then have "xs ! i \<in> set (filter P xs)" by simp
  then show ?thesis by (rule length_pos_if_in_set)
qed

lemma tasks_domains_update:
  "i < length ts \<Longrightarrow>
     tasks_domains (ts[i := t]) + task_domain (ts ! i) = tasks_domains ts + task_domain t"
proof (induction ts arbitrary: i)
  case Nil
  then show ?case by simp
next
  case (Cons a ts)
  then show ?case by (cases i) (auto simp: ac_simps)
qed

lemma tasks_domains_append: "tasks_domains (ts @ us) = tasks_domains ts + tasks_domains us"
  by (induction ts) (auto simp: ac_simps)

lemma task_steps_update:
  "i < length ts \<Longrightarrow>
     sum_list (map task_steps (ts[i := t])) + task_steps (ts ! i)
       = sum_list (map task_steps ts) + task_steps t"
proof (induction ts arbitrary: i)
  case Nil
  then show ?case by simp
next
  case (Cons a ts)
  then show ?case by (cases i) auto
qed

subsection \<open>The invariant holds in every state that a schedule reaches\<close>

lemma invariant_LookupWorker: "invariant c domains (LookupWorker m c domains)"
  by (simp add: invariant_def LookupWorker_def in_flight_def running_def)

lemma invariant_Start_step:
  assumes "invariant c domains w" and "Start_step w = Some w'"
  shows "invariant c domains w'"
proof (cases "pc w")
  case Receiving
  with assms show ?thesis
    by (cases "unchecked w")
       (auto simp: invariant_def Start_step_def in_flight_def running_def)
next
  case (Adding d)
  with assms show ?thesis
    by (auto simp: invariant_def Start_step_def in_flight_def running_def)
next
  case (Acquiring d)
  with assms show ?thesis
    by (auto simp: invariant_def Start_step_def in_flight_def running_def split: if_splits)
next
  case (Spawning d)
  with assms show ?thesis
    by (auto simp: invariant_def Start_step_def in_flight_def running_def tasks_domains_append)
next
  case Waiting
  with assms show ?thesis
    by (auto simp: invariant_def Start_step_def in_flight_def running_def split: if_splits)
next
  case Closing
  with assms show ?thesis
    by (auto simp: invariant_def Start_step_def in_flight_def running_def)
next
  case Returned
  with assms show ?thesis
    by (simp add: Start_step_def)
qed


lemma invariant_task_step:
  assumes inv: "invariant c domains w" and step: "task_step i net w = Some w'"
  shows "invariant c domains w'"
proof -
  from step have i: "i < length (tasks w)"
    by (simp add: task_step_def split: if_splits)
  note h = filter_update_length [OF i, of holds_slot]
  note u = filter_update_length [OF i, of unfinished]
  note d = tasks_domains_update [OF i]
  show ?thesis
  proof (cases "tasks w ! i")
    case (Started domain)
    obtain r asked where l: "lookup (rdapLookupMap w) net domain (requested w) = (r, asked)"
      by (cases "lookup (rdapLookupMap w) net domain (requested w)")
    then have r: "Domain r = domain"
      using lookup_Domain [of "rdapLookupMap w" net domain "requested w"] by simp
    from step i Started l
    have w': "w' = w\<lparr>tasks := (tasks w)[i := Sending r], requested := asked\<rparr>"
      by (simp add: task_step_def)
    from h [of "Sending r"] u [of "Sending r"] d [of "Sending r"] inv Started r
    show ?thesis
      by (simp add: w' invariant_def in_flight_def running_def)
  next
    case (Sending r)
    from inv have nc: "closed w \<longrightarrow> running w = 0"
      by (auto simp: invariant_def)
    from filter_nth_pos [OF i, of unfinished] Sending have "running w \<noteq> 0"
      by (simp add: running_def)
    with nc have "\<not> closed w" by simp
    with step i Sending
    have w': "w' = w\<lparr>Result_chan := Result_chan w @ [r], tasks := (tasks w)[i := Releasing]\<rparr>"
      by (simp add: task_step_def)
    from h [of Releasing] u [of Releasing] d [of Releasing, symmetric] inv Sending
    show ?thesis
      by (simp add: w' invariant_def in_flight_def running_def ac_simps)
  next
    case Releasing
    with step i
    have w': "w' = w\<lparr>concurrencies := concurrencies w - 1, tasks := (tasks w)[i := Finishing]\<rparr>"
      and pos: "concurrencies w > 0"
      by (simp_all add: task_step_def split: if_splits)
    from h [of Finishing, symmetric] u [of Finishing] d [of Finishing] inv Releasing pos
    show ?thesis
      by (simp add: w' invariant_def in_flight_def running_def)
  next
    case Finishing
    from filter_nth_pos [OF i, of unfinished] Finishing have pos: "running w \<noteq> 0"
      by (simp add: running_def)
    with inv have "\<not> wg w - 1 < 0"
      by (simp add: invariant_def)
    with step i Finishing
    have w': "w' = w\<lparr>wg := wg w - 1, tasks := (tasks w)[i := Exited]\<rparr>"
      by (simp add: task_step_def)
    from h [of Exited] u [of Exited, symmetric] d [of Exited] inv Finishing pos
    show ?thesis
      by (auto simp: w' invariant_def in_flight_def running_def)
  next
    case Exited
    with step i show ?thesis by (simp add: task_step_def)
  qed
qed

lemma invariant_fire:
  "invariant c domains w \<Longrightarrow> fire e w = Some w' \<Longrightarrow> invariant c domains w'"
  by (cases e) (auto split: if_splits intro: invariant_Start_step invariant_task_step)

lemma invariant_run:
  "invariant c domains w \<Longrightarrow> run es w = Some w' \<Longrightarrow> invariant c domains w'"
proof (induction es arbitrary: w)
  case Nil
  then show ?case by simp
next
  case (Cons e es)
  then show ?case
    by (auto split: option.splits dest: invariant_fire)
qed

lemma invariant_reachable:
  "run es (LookupWorker m c domains) = Some w \<Longrightarrow> invariant c domains w"
  using invariant_run [OF invariant_LookupWorker] .

subsection \<open>No task blocks for ever, and every step is one step nearer to the end\<close>

lemma filter_pos_nth: "0 < length (filter P xs) \<Longrightarrow> \<exists>i<length xs. P (xs ! i)"
proof -
  assume "0 < length (filter P xs)"
  then obtain x where "x \<in> set (filter P xs)"
    by (cases "filter P xs") auto
  then have "x \<in> set xs" and "P x" by simp_all
  then show ?thesis by (auto simp: in_set_conv_nth)
qed

lemma task_step_Started:
  assumes "\<not> panicked w" and "i < length (tasks w)" and "tasks w ! i = Started domain"
  shows "task_step i net w =
           Some (w\<lparr>tasks := (tasks w)[i := Sending (fst (lookup (rdapLookupMap w) net domain (requested w)))],
                   requested := snd (lookup (rdapLookupMap w) net domain (requested w))\<rparr>)"
  using assms by (simp add: task_step_def split: prod.split)

lemma task_step_Sending:
  assumes "invariant c domains w" and "i < length (tasks w)" and "tasks w ! i = Sending r"
  shows "task_step i net w =
           Some (w\<lparr>Result_chan := Result_chan w @ [r], tasks := (tasks w)[i := Releasing]\<rparr>)"
proof -
  from filter_nth_pos [OF assms(2), of unfinished] assms(3) have "running w \<noteq> 0"
    by (simp add: running_def)
  with assms(1) have "\<not> closed w" by (auto simp: invariant_def)
  with assms(2,3) show ?thesis by (simp add: task_step_def)
qed

lemma task_step_Releasing:
  assumes "invariant c domains w" and "i < length (tasks w)" and "tasks w ! i = Releasing"
  shows "0 < concurrencies w \<and>
         task_step i net w =
           Some (w\<lparr>concurrencies := concurrencies w - 1, tasks := (tasks w)[i := Finishing]\<rparr>)"
proof -
  from filter_nth_pos [OF assms(2), of holds_slot] assms(3) have "0 < in_flight w"
    by (simp add: in_flight_def)
  with assms(1) have "0 < concurrencies w" by (simp add: invariant_def)
  with assms(2,3) show ?thesis by (simp add: task_step_def)
qed

lemma task_step_Finishing:
  assumes "invariant c domains w" and "i < length (tasks w)" and "tasks w ! i = Finishing"
  shows "task_step i net w = Some (w\<lparr>wg := wg w - 1, tasks := (tasks w)[i := Exited]\<rparr>)"
proof -
  from filter_nth_pos [OF assms(2), of unfinished] assms(3) have "running w \<noteq> 0"
    by (simp add: running_def)
  with assms(1) have "\<not> wg w - 1 < 0" by (simp add: invariant_def)
  with assms(2,3) show ?thesis by (simp add: task_step_def)
qed

lemma task_step_enabled:
  assumes inv: "invariant c domains w" and i: "i < length (tasks w)"
    and u: "unfinished (tasks w ! i)"
  shows "\<exists>w'. task_step i net w = Some w'"
proof (cases "tasks w ! i")
  case (Started domain)
  from inv have "\<not> panicked w" by (simp add: invariant_def)
  from task_step_Started [OF this i Started] show ?thesis by blast
next
  case (Sending r)
  from task_step_Sending [OF inv i Sending] show ?thesis by blast
next
  case Releasing
  from task_step_Releasing [OF inv i Releasing] show ?thesis by blast
next
  case Finishing
  from task_step_Finishing [OF inv i Finishing] show ?thesis by blast
next
  case Exited
  with u show ?thesis by simp
qed

lemma holds_slot_unfinished: "holds_slot t \<Longrightarrow> unfinished t"
  by (cases t) simp_all

lemma fire_enabled:
  assumes inv: "invariant c domains w" and c: "1 \<le> c" and pc: "pc w \<noteq> Returned"
  shows "\<exists>e w'. fire e w = Some w'"
proof -
  from inv have np: "\<not> panicked w" by (simp add: invariant_def)
  have task: "\<exists>e w'. fire e w = Some w'" if "0 < running w"
  proof -
    from that obtain i where i: "i < length (tasks w)" and u: "unfinished (tasks w ! i)"
      using filter_pos_nth [of unfinished "tasks w"] by (auto simp: running_def)
    from task_step_enabled [OF inv i u, of "\<lambda>url. Inl (errorString [])"]
    obtain w' where "task_step i (\<lambda>url. Inl (errorString [])) w = Some w'" by blast
    with np have "fire (Task i (\<lambda>url. Inl (errorString []))) w = Some w'" by simp
    then show ?thesis by blast
  qed
  have disp: "\<exists>e w'. fire e w = Some w'" if "Start_step w = Some w'" for w'
  proof -
    from that np have "fire Dispatch w = Some w'" by simp
    then show ?thesis by blast
  qed
  show ?thesis
  proof (cases "pc w")
    case Receiving
    then show ?thesis
      by (cases "unchecked w") (auto intro!: disp simp: Start_step_def)
  next
    case (Adding d)
    then show ?thesis by (auto intro!: disp simp: Start_step_def)
  next
    case (Acquiring d)
    show ?thesis
    proof (cases "concurrencies w < concurrencyLimit w")
      case True
      with Acquiring show ?thesis by (auto intro!: disp simp: Start_step_def)
    next
      case False
      with inv c Acquiring have "0 < in_flight w" by (simp add: invariant_def)
      then have "0 < running w"
        using filter_pos_nth [of holds_slot "tasks w"]
          filter_nth_pos [of _ "tasks w" unfinished] holds_slot_unfinished
        by (auto simp: in_flight_def running_def)
      then show ?thesis by (rule task)
    qed
  next
    case (Spawning d)
    then show ?thesis by (auto intro!: disp simp: Start_step_def)
  next
    case Waiting
    show ?thesis
    proof (cases "wg w = 0")
      case True
      with Waiting show ?thesis by (auto intro!: disp simp: Start_step_def)
    next
      case False
      with inv Waiting have "0 < running w" by (simp add: invariant_def)
      then show ?thesis by (rule task)
    qed
  next
    case Closing
    then show ?thesis by (auto intro!: disp simp: Start_step_def)
  next
    case Returned
    with pc show ?thesis by simp
  qed
qed

lemma steps_left_Start_step:
  "Start_step w = Some w' \<Longrightarrow> steps_left w = Suc (steps_left w')"
  by (cases "pc w"; cases "unchecked w")
     (auto simp: Start_step_def steps_left_def split: if_splits)

lemma steps_left_task_step:
  assumes inv: "invariant c domains w" and step: "task_step i net w = Some w'"
  shows "steps_left w = Suc (steps_left w')"
proof -
  from step have i: "i < length (tasks w)"
    by (simp add: task_step_def split: if_splits)
  from inv have np: "\<not> panicked w" by (simp add: invariant_def)
  note t = task_steps_update [OF i]
  show ?thesis
  proof (cases "tasks w ! i")
    case (Started domain)
    from task_step_Started [OF np i Started, of net] step t [of "Sending (fst (lookup (rdapLookupMap w) net domain (requested w)))"] Started
    show ?thesis by (auto simp: steps_left_def)
  next
    case (Sending r)
    from task_step_Sending [OF inv i Sending, of net] step t [of Releasing] Sending
    show ?thesis by (auto simp: steps_left_def)
  next
    case Releasing
    from task_step_Releasing [OF inv i Releasing, of net] step t [of Finishing] Releasing
    show ?thesis by (auto simp: steps_left_def)
  next
    case Finishing
    from task_step_Finishing [OF inv i Finishing, of net] step t [of Exited] Finishing
    show ?thesis by (auto simp: steps_left_def)
  next
    case Exited
    with step i show ?thesis by (simp add: task_step_def)
  qed
qed

lemma steps_left_fire:
  "invariant c domains w \<Longrightarrow> fire e w = Some w' \<Longrightarrow> steps_left w = Suc (steps_left w')"
  by (cases e) (auto split: if_splits intro: steps_left_Start_step steps_left_task_step)

lemma steps_left_run:
  "invariant c domains w \<Longrightarrow> run es w = Some w' \<Longrightarrow> steps_left w = length es + steps_left w'"
proof (induction es arbitrary: w)
  case Nil
  then show ?case by simp
next
  case (Cons e es)
  from Cons.prems obtain w1 where f: "fire e w = Some w1" and r: "run es w1 = Some w'"
    by (auto split: option.splits)
  from invariant_fire [OF Cons.prems(1) f] have "invariant c domains w1" .
  from Cons.IH [OF this r] steps_left_fire [OF Cons.prems(1) f] show ?case by simp
qed

lemma steps_left_LookupWorker: "steps_left (LookupWorker m c domains) = 8 * length domains + 3"
  by (simp add: steps_left_def LookupWorker_def)

lemma sum_task_steps_0: "sum_list (map task_steps ts) = 0 \<longleftrightarrow> filter unfinished ts = []"
proof (induction ts)
  case Nil
  then show ?case by simp
next
  case (Cons t ts)
  then show ?case by (cases t) simp_all
qed

lemma steps_left_0:
  assumes "invariant c domains w"
  shows "steps_left w = 0 \<longleftrightarrow> closed w"
proof
  assume "steps_left w = 0"
  then have "pc w = Returned"
    by (cases "pc w") (simp_all add: steps_left_def)
  with assms show "closed w" by (simp add: invariant_def)
next
  assume "closed w"
  with assms have pc: "pc w = Returned" and un: "unchecked w = []" and "running w = 0"
    by (auto simp: invariant_def)
  then have "filter unfinished (tasks w) = []" by (simp add: running_def)
  then have "sum_list (map task_steps (tasks w)) = 0" by (simp only: sum_task_steps_0)
  then show "steps_left w = 0"
    unfolding steps_left_def pc un by simp
qed

lemma no_domains_left:
  "tasks_domains ts = {#} \<longleftrightarrow> (\<forall>t\<in>set ts. task_domain t = {#})"
  by (induction ts) auto

lemma unfinished_domain: "task_domain t \<noteq> {#} \<Longrightarrow> unfinished t"
  by (cases t) simp_all

lemma closed_all_received:
  assumes "invariant c domains w" and "closed w"
  shows "mset (map Domain (Result_chan w)) = mset domains"
proof -
  from assms have pc: "pc w = Returned" and un: "unchecked w = []"
    and run0: "filter unfinished (tasks w) = []"
    by (auto simp: invariant_def running_def)
  have "\<forall>t\<in>set (tasks w). task_domain t = {#}"
  proof
    fix t assume t: "t \<in> set (tasks w)"
    show "task_domain t = {#}"
    proof (rule ccontr)
      assume "task_domain t \<noteq> {#}"
      then have "unfinished t" by (rule unfinished_domain)
      with t have "t \<in> set (filter unfinished (tasks w))" by simp
      with run0 show False by simp
    qed
  qed
  then have "tasks_domains (tasks w) = {#}" by (simp add: no_domains_left)
  with assms(1) pc un show ?thesis by (simp add: invariant_def)
qed

lemma received_subset:
  assumes "invariant c domains w"
  shows "mset (map Domain (Result_chan w)) \<subseteq># mset domains"
proof -
  from assms have "mset (map Domain (Result_chan w)) + (tasks_domains (tasks w)
       + dispatcher_domain (pc w) + mset (unchecked w)) = mset domains"
    by (simp add: invariant_def ac_simps)
  then show ?thesis by (metis mset_subset_eq_add_left)
qed

subsection \<open>Without capacity the dispatcher blocks\<close>

text \<open>
  With \<open>concurrencyLimit = 0\<close> and at least one domain, \<open>Start\<close> blocks at its first send
  on \<open>concurrencies\<close>: no task is created, nothing is sent on \<open>Result\<close>, and the channel
  is never closed.  The input is not drained then; the progress part of C1 and the claim
  C3 are about limits of at least 1.
\<close>

lemma Start_blocked_run:
  assumes "tasks w = [] \<and> concurrencyLimit w = 0 \<and> Result_chan w = [] \<and> \<not> closed w \<and>
           (pc w = Receiving \<and> unchecked w \<noteq> [] \<or> (\<exists>d. pc w = Adding d) \<or> (\<exists>d. pc w = Acquiring d))"
    and "run es w = Some w'"
  shows "tasks w' = [] \<and> concurrencyLimit w' = 0 \<and> Result_chan w' = [] \<and> \<not> closed w' \<and>
           (pc w' = Receiving \<and> unchecked w' \<noteq> [] \<or> (\<exists>d. pc w' = Adding d) \<or> (\<exists>d. pc w' = Acquiring d))"
  using assms
proof (induction es arbitrary: w)
  case Nil
  then show ?case by simp
next
  case (Cons e es)
  from Cons.prems(2) obtain w1 where f: "fire e w = Some w1" and r: "run es w1 = Some w'"
    by (auto split: option.splits)
  have "tasks w1 = [] \<and> concurrencyLimit w1 = 0 \<and> Result_chan w1 = [] \<and> \<not> closed w1 \<and>
           (pc w1 = Receiving \<and> unchecked w1 \<noteq> [] \<or> (\<exists>d. pc w1 = Adding d) \<or> (\<exists>d. pc w1 = Acquiring d))"
  proof (cases e)
    case Dispatch
    with f Cons.prems(1) show ?thesis
      by (cases "unchecked w") (auto simp: Start_step_def split: if_splits)
  next
    case (Task i net)
    with f Cons.prems(1) show ?thesis
      by (simp add: task_step_def split: if_splits)
  qed
  from Cons.IH [OF this r] show ?case .
qed

lemma Start_blocks_without_capacity:
  assumes "run es (LookupWorker m 0 (domain # rest)) = Some w"
  shows "\<not> closed w \<and> Result_chan w = []"
proof -
  have "tasks (LookupWorker m 0 (domain # rest)) = [] \<and>
        concurrencyLimit (LookupWorker m 0 (domain # rest)) = 0 \<and>
        Result_chan (LookupWorker m 0 (domain # rest)) = [] \<and>
        \<not> closed (LookupWorker m 0 (domain # rest)) \<and>
        (pc (LookupWorker m 0 (domain # rest)) = Receiving \<and>
           unchecked (LookupWorker m 0 (domain # rest)) \<noteq> [] \<or>
         (\<exists>d. pc (LookupWorker m 0 (domain # rest)) = Adding d) \<or>
         (\<exists>d. pc (LookupWorker m 0 (domain # rest)) = Acquiring d))"
    by (simp add: LookupWorker_def)
  from Start_blocked_run [OF this assms] show ?thesis by blast
qed

subsection \<open>One result for each domain\<close>

text \<open>
  C1: in every state that a schedule of \<open>Start\<close> and its tasks reaches, no goroutine has
  panicked (nothing is sent on the closed channel), and the domains of the results
  received are among the domains given, each at most as often as it was given.  Once
  \<open>Result\<close> is closed they are the domains given, each exactly as often, so there are as
  many results as domains.  A schedule has at most \<open>8 * n + 3\<close> steps for \<open>n\<close> domains,
  and \<open>Result\<close> is closed exactly when it has that many; with a limit of at least 1
  some goroutine can step as long as \<open>Result\<close> is not closed, so the schedule can always
  be continued to that end.  For no domains nothing is ever received, and the three
  steps of \<open>Start\<close> close the channel.
\<close>

theorem Start_one_result_per_domain:
  assumes "run es (LookupWorker m c domains) = Some w"
  shows "\<not> panicked w \<and>
         mset (map Domain (Result_chan w)) \<subseteq># mset domains \<and>
         length (Result_chan w) \<le> length domains \<and>
         (closed w \<longrightarrow>
            mset (map Domain (Result_chan w)) = mset domains \<and>
            length (Result_chan w) = length domains) \<and>
         length es \<le> 8 * length domains + 3 \<and>
         (closed w \<longleftrightarrow> length es = 8 * length domains + 3) \<and>
         (1 \<le> c \<and> \<not> closed w \<longrightarrow> (\<exists>e w'. fire e w = Some w')) \<and>
         (domains = [] \<longrightarrow> Result_chan w = []) \<and>
         run [Dispatch, Dispatch, Dispatch] (LookupWorker m c [])
           = Some ((LookupWorker m c [])\<lparr>closed := True, pc := Returned\<rparr>)"
proof -
  from assms have inv: "invariant c domains w" by (rule invariant_reachable)
  then have np: "\<not> panicked w" by (simp add: invariant_def)
  have sub: "mset (map Domain (Result_chan w)) \<subseteq># mset domains"
    using inv by (rule received_subset)
  from size_mset_mono [OF sub] have le: "length (Result_chan w) \<le> length domains" by simp
  have all: "mset (map Domain (Result_chan w)) = mset domains \<and>
             length (Result_chan w) = length domains" if "closed w"
  proof -
    from closed_all_received [OF inv that]
    have e: "mset (map Domain (Result_chan w)) = mset domains" .
    then have "size (mset (map Domain (Result_chan w))) = size (mset domains)"
      by (rule arg_cong)
    then have "length (Result_chan w) = length domains" by simp
    with e show ?thesis by (rule conjI)
  qed
  from steps_left_run [OF invariant_LookupWorker assms]
  have n: "8 * length domains + 3 = length es + steps_left w"
    by (simp add: steps_left_LookupWorker)
  then have bound: "length es \<le> 8 * length domains + 3" by simp
  from n steps_left_0 [OF inv]
  have cl: "closed w \<longleftrightarrow> length es = 8 * length domains + 3" by auto
  have prog: "\<exists>e w'. fire e w = Some w'" if "1 \<le> c" and "\<not> closed w"
  proof -
    from that(2) inv have "pc w \<noteq> Returned" by (simp add: invariant_def)
    from fire_enabled [OF inv that(1) this] show ?thesis .
  qed
  have empty: "Result_chan w = []" if "domains = []"
    using le that by simp
  have imm: "run [Dispatch, Dispatch, Dispatch] (LookupWorker m c [])
           = Some ((LookupWorker m c [])\<lparr>closed := True, pc := Returned\<rparr>)"
    by (simp add: LookupWorker_def Start_step_def)
  from np sub le all bound cl prog empty imm show ?thesis by blast
qed

theorem Start_one_result_per_domain_witness:
  "run [Dispatch, Dispatch, Dispatch, Dispatch,
        Task 0 (\<lambda>url. Inr \<lparr>StatusCode = 404, Body = Inr []\<rparr>),
        Task 0 (\<lambda>url. Inl (errorString [])),
        Task 0 (\<lambda>url. Inl (errorString [])), Task 0 (\<lambda>url. Inl (errorString [])),
        Dispatch, Dispatch, Dispatch, Dispatch,
        Task 1 (\<lambda>url. Inl (errorString [])), Task 1 (\<lambda>url. Inl (errorString [])),
        Task 1 (\<lambda>url. Inl (errorString [])), Task 1 (\<lambda>url. Inl (errorString [])),
        Dispatch, Dispatch, Dispatch]
     (LookupWorker [''com'' \<mapsto> [''http://r1'']] 1 [''a.com'', ''b.xx''])
   = Some \<lparr>unchecked = [], rdapLookupMap = [''com'' \<mapsto> [''http://r1'']],
       concurrencies = 0, concurrencyLimit = 1,
       Result_chan =
         [\<lparr>Domain = ''a.com'', Message = ''Unregistered'', Result = None\<rparr>,
          \<lparr>Domain = ''b.xx'', Message = ''No RDAP server found'', Result = None\<rparr>],
       closed = True, wg = 0, pc = Returned, tasks = [Exited, Exited],
       requested = [''http://r1/domain/a.com''], panicked = False\<rparr> \<and>
   mset (map Domain
          [\<lparr>Domain = ''a.com'', Message = ''Unregistered'', Result = None\<rparr>,
           \<lparr>Domain = ''b.xx'', Message = ''No RDAP server found'', Result = None\<rparr>])
     = mset [''a.com'', ''b.xx''] \<and>
   length [\<lparr>Domain = ''a.com'', Message = ''Unregistered'', Result = None\<rparr>,
          \<lparr>Domain = ''b.xx'', Message = ''No RDAP server found'', Result = None\<rparr>]
     = length [''a.com'', ''b.xx''] \<and>
   run [Dispatch, Dispatch, Dispatch]
     (LookupWorker [''com'' \<mapsto> [''http://r1'']] 1 [''a.com'', ''b.xx''])
   = Some \<lparr>unchecked = [''b.xx''], rdapLookupMap = [''com'' \<mapsto> [''http://r1'']],
       concurrencies = 1, concurrencyLimit = 1, Result_chan = [], closed = False, wg = 1,
       pc = Spawning ''a.com'', tasks = [], requested = [], panicked = False\<rparr> \<and>
   (\<exists>e w'. fire e \<lparr>unchecked = [''b.xx''], rdapLookupMap = [''com'' \<mapsto> [''http://r1'']],
       concurrencies = 1, concurrencyLimit = 1, Result_chan = [], closed = False, wg = 1,
       pc = Spawning ''a.com'', tasks = [], requested = [], panicked = False\<rparr> = Some w') \<and>
   run [Dispatch, Dispatch] (LookupWorker [''com'' \<mapsto> [''http://r1'']] 1 [])
   = Some \<lparr>unchecked = [], rdapLookupMap = [''com'' \<mapsto> [''http://r1'']],
       concurrencies = 0, concurrencyLimit = 1, Result_chan = [], closed = False, wg = 0,
       pc = Closing, tasks = [], requested = [], panicked = False\<rparr>"
proof -
  let ?m = "[''com'' \<mapsto> [''http://r1'']]"
  let ?es = "[Dispatch, Dispatch, Dispatch, Dispatch,
        Task 0 (\<lambda>url. Inr \<lparr>StatusCode = 404, Body = Inr []\<rparr>),
        Task 0 (\<lambda>url. Inl (errorString [])),
        Task 0 (\<lambda>url. Inl (errorString [])), Task 0 (\<lambda>url. Inl (errorString [])),
        Dispatch, Dispatch, Dispatch, Dispatch,
        Task 1 (\<lambda>url. Inl (errorString [])), Task 1 (\<lambda>url. Inl (errorString [])),
        Task 1 (\<lambda>url. Inl (errorString [])), Task 1 (\<lambda>url. Inl (errorString [])),
        Dispatch, Dispatch, Dispatch]"
  let ?w = "\<lparr>unchecked = [], rdapLookupMap = ?m,
       concurrencies = 0, concurrencyLimit = 1,
       Result_chan =
         [\<lparr>Domain = ''a.com'', Message = ''Unregistered'', Result = None\<rparr>,
          \<lparr>Domain = ''b.xx'', Message = ''No RDAP server found'', Result = None\<rparr>],
       closed = True, wg = 0, pc = Returned, tasks = [Exited, Exited],
       requested = [''http://r1/domain/a.com''], panicked = False\<rparr>"
  let ?v = "\<lparr>unchecked = [''b.xx''], rdapLookupMap = ?m,
       concurrencies = 1, concurrencyLimit = 1, Result_chan = [], closed = False, wg = 1,
       pc = Spawning ''a.com'', tasks = [], requested = [], panicked = False\<rparr>"
  let ?u = "\<lparr>unchecked = [], rdapLookupMap = ?m,
       concurrencies = 0, concurrencyLimit = 1, Result_chan = [], closed = False, wg = 0,
       pc = Closing, tasks = [], requested = [], panicked = False\<rparr>"
  have r: "run ?es (LookupWorker ?m 1 [''a.com'', ''b.xx'']) = Some ?w"
    by (simp add: LookupWorker_def Start_step_def task_step_def lookup_def topdomain_eq
          queryRdap_def http_Get_def rdapLookupURL_def lookup_message_def)
  have p: "run [Dispatch, Dispatch, Dispatch] (LookupWorker ?m 1 [''a.com'', ''b.xx'']) = Some ?v"
    by (simp add: LookupWorker_def Start_step_def)
  have e: "run [Dispatch, Dispatch] (LookupWorker ?m 1 []) = Some ?u"
    by (simp add: LookupWorker_def Start_step_def)
  from Start_one_result_per_domain [OF r]
  have 1: "mset (map Domain (Result_chan ?w)) = mset [''a.com'', ''b.xx''] \<and>
           length (Result_chan ?w) = length [''a.com'', ''b.xx'']"
    by simp
  from Start_one_result_per_domain [OF p]
  have 2: "\<exists>e w'. fire e ?v = Some w'"
    by simp
  from Start_one_result_per_domain [OF e]
  have 3: "Result_chan ?u = []"
    by simp
  from r p e 1 2 3 show ?thesis by simp
qed

subsection \<open>At most \<open>concurrencyLimit\<close> tasks in flight\<close>

text \<open>
  C3: in every state that a schedule reaches, the number of tasks in flight is at most
  the limit: the elements in \<open>concurrencies\<close> are one for each task in flight, and one
  more while \<open>Start\<close> is between its send and its \<open>go\<close>.  A task that sends its result,
  whatever the result is, goes on to give its slot back, and that receive from
  \<open>concurrencies\<close> does not block.
\<close>

theorem Start_in_flight_bound:
  assumes "run es (LookupWorker m c domains) = Some w"
  shows "in_flight w \<le> c \<and>
         concurrencies w = in_flight w + slot_taken (pc w) \<and>
         concurrencies w \<le> c \<and>
         (\<forall>i net r. i < length (tasks w) \<and> tasks w ! i = Sending r \<longrightarrow>
            task_step i net w =
              Some (w\<lparr>Result_chan := Result_chan w @ [r], tasks := (tasks w)[i := Releasing]\<rparr>)) \<and>
         (\<forall>i net. i < length (tasks w) \<and> tasks w ! i = Releasing \<longrightarrow>
            0 < concurrencies w \<and>
            task_step i net w =
              Some (w\<lparr>concurrencies := concurrencies w - 1,
                      tasks := (tasks w)[i := Finishing]\<rparr>))"
proof -
  from assms have inv: "invariant c domains w" by (rule invariant_reachable)
  then have 1: "concurrencies w = in_flight w + slot_taken (pc w)"
    and 2: "concurrencies w \<le> c"
    by (simp_all add: invariant_def)
  then have 3: "in_flight w \<le> c" by simp
  from 1 2 3 task_step_Sending [OF inv] task_step_Releasing [OF inv]
  show ?thesis by blast
qed

theorem Start_in_flight_bound_witness:
  "run [Dispatch, Dispatch, Dispatch, Dispatch, Dispatch, Dispatch, Dispatch, Dispatch,
        Dispatch, Dispatch]
     (LookupWorker Map.empty 2 [''a.com'', ''b.xx'', ''c.org''])
   = Some \<lparr>unchecked = [], rdapLookupMap = Map.empty, concurrencies = 2, concurrencyLimit = 2,
       Result_chan = [], closed = False, wg = 3, pc = Acquiring ''c.org'',
       tasks = [Started ''a.com'', Started ''b.xx''], requested = [], panicked = False\<rparr> \<and>
   in_flight \<lparr>unchecked = [], rdapLookupMap = Map.empty, concurrencies = 2, concurrencyLimit = 2,
       Result_chan = [], closed = False, wg = 3, pc = Acquiring ''c.org'',
       tasks = [Started ''a.com'', Started ''b.xx''], requested = [], panicked = False\<rparr> \<le> 2 \<and>
   fire Dispatch \<lparr>unchecked = [], rdapLookupMap = Map.empty, concurrencies = 2,
       concurrencyLimit = 2,
       Result_chan = [], closed = False, wg = 3, pc = Acquiring ''c.org'',
       tasks = [Started ''a.com'', Started ''b.xx''], requested = [], panicked = False\<rparr> = None \<and>
   run [Dispatch, Dispatch, Dispatch, Dispatch, Task 0 (\<lambda>url. Inl (errorString []))]
     (LookupWorker Map.empty 2 [''a.com''])
   = Some \<lparr>unchecked = [], rdapLookupMap = Map.empty, concurrencies = 1, concurrencyLimit = 2,
       Result_chan = [], closed = False, wg = 1, pc = Receiving,
       tasks = [Sending \<lparr>Domain = ''a.com'', Message = ''No RDAP server found'', Result = None\<rparr>],
       requested = [], panicked = False\<rparr> \<and>
   task_step 0 (\<lambda>url. Inl (errorString []))
     \<lparr>unchecked = [], rdapLookupMap = Map.empty, concurrencies = 1, concurrencyLimit = 2,
       Result_chan = [], closed = False, wg = 1, pc = Receiving,
       tasks = [Sending \<lparr>Domain = ''a.com'', Message = ''No RDAP server found'', Result = None\<rparr>],
       requested = [], panicked = False\<rparr>
   = Some \<lparr>unchecked = [], rdapLookupMap = Map.empty, concurrencies = 1, concurrencyLimit = 2,
       Result_chan = [\<lparr>Domain = ''a.com'', Message = ''No RDAP server found'', Result = None\<rparr>],
       closed = False, wg = 1, pc = Receiving, tasks = [Releasing],
       requested = [], panicked = False\<rparr> \<and>
   run [Dispatch, Dispatch, Dispatch, Dispatch, Task 0 (\<lambda>url. Inl (errorString [])),
        Task 0 (\<lambda>url. Inl (errorString []))]
     (LookupWorker Map.empty 2 [''a.com''])
   = Some \<lparr>unchecked = [], rdapLookupMap = Map.empty, concurrencies = 1, concurrencyLimit = 2,
       Result_chan = [\<lparr>Domain = ''a.com'', Message = ''No RDAP server found'', Result = None\<rparr>],
       closed = False, wg = 1, pc = Receiving, tasks = [Releasing],
       requested = [], panicked = False\<rparr> \<and>
   task_step 0 (\<lambda>url. Inl (errorString []))
     \<lparr>unchecked = [], rdapLookupMap = Map.empty, concurrencies = 1, concurrencyLimit = 2,
       Result_chan = [\<lparr>Domain = ''a.com'', Message = ''No RDAP server found'', Result = None\<rparr>],
       closed = False, wg = 1, pc = Receiving, tasks = [Releasing],
       requested = [], panicked = False\<rparr>
   = Some \<lparr>unchecked = [], rdapLookupMap = Map.empty, concurrencies = 0, concurrencyLimit = 2,
       Result_chan = [\<lparr>Domain = ''a.com'', Message = ''No RDAP server found'', Result = None\<rparr>],
       closed = False, wg = 1, pc = Receiving, tasks = [Finishing],
       requested = [], panicked = False\<rparr>"
proof -
  let ?net = "\<lambda>url :: string. Inl (errorString []) :: error + Response"
  let ?r = "\<lparr>Domain = ''a.com'', Message = ''No RDAP server found'', Result = None\<rparr>"
  let ?es = "[Dispatch, Dispatch, Dispatch, Dispatch, Dispatch, Dispatch, Dispatch, Dispatch,
        Dispatch, Dispatch]"
  let ?w = "\<lparr>unchecked = [], rdapLookupMap = Map.empty, concurrencies = 2, concurrencyLimit = 2,
       Result_chan = [], closed = False, wg = 3, pc = Acquiring ''c.org'',
       tasks = [Started ''a.com'', Started ''b.xx''], requested = [], panicked = False\<rparr>"
  let ?s = "\<lparr>unchecked = [], rdapLookupMap = Map.empty, concurrencies = 1, concurrencyLimit = 2,
       Result_chan = [], closed = False, wg = 1, pc = Receiving,
       tasks = [Sending ?r], requested = [], panicked = False\<rparr>"
  let ?t = "\<lparr>unchecked = [], rdapLookupMap = Map.empty, concurrencies = 1, concurrencyLimit = 2,
       Result_chan = [?r], closed = False, wg = 1, pc = Receiving, tasks = [Releasing],
       requested = [], panicked = False\<rparr>"
  have r: "run ?es (LookupWorker Map.empty 2 [''a.com'', ''b.xx'', ''c.org'']) = Some ?w"
    by (simp add: LookupWorker_def Start_step_def)
  have b: "fire Dispatch ?w = None" by (simp add: Start_step_def)
  have s: "run [Dispatch, Dispatch, Dispatch, Dispatch, Task 0 ?net]
             (LookupWorker Map.empty 2 [''a.com'']) = Some ?s"
    by (simp add: LookupWorker_def Start_step_def task_step_def lookup_def)
  have t: "run [Dispatch, Dispatch, Dispatch, Dispatch, Task 0 ?net, Task 0 ?net]
             (LookupWorker Map.empty 2 [''a.com'']) = Some ?t"
    by (simp add: LookupWorker_def Start_step_def task_step_def lookup_def)
  from Start_in_flight_bound [OF r] have 1: "in_flight ?w \<le> 2" by (rule conjunct1)
  from Start_in_flight_bound [OF s]
  have "\<forall>i net r. i < length (tasks ?s) \<and> tasks ?s ! i = Sending r \<longrightarrow>
            task_step i net ?s =
              Some (?s\<lparr>Result_chan := Result_chan ?s @ [r], tasks := (tasks ?s)[i := Releasing]\<rparr>)"
    by blast
  then have 2: "task_step 0 ?net ?s = Some ?t" by simp
  from Start_in_flight_bound [OF t]
  have "\<forall>i net. i < length (tasks ?t) \<and> tasks ?t ! i = Releasing \<longrightarrow>
            0 < concurrencies ?t \<and>
            task_step i net ?t =
              Some (?t\<lparr>concurrencies := concurrencies ?t - 1,
                      tasks := (tasks ?t)[i := Finishing]\<rparr>)"
    by blast
  then have 3: "task_step 0 ?net ?t
     = Some \<lparr>unchecked = [], rdapLookupMap = Map.empty, concurrencies = 0, concurrencyLimit = 2,
       Result_chan = [?r], closed = False, wg = 1, pc = Receiving, tasks = [Finishing],
       requested = [], panicked = False\<rparr>" by simp
  from r 1 b s 2 t 3 show ?thesis by blast
qed

end
